theory Spec2Isabelle
  imports Complex_Main "HOL-Library.Word"
begin

unbundle bit_operations_syntax

section \<open>hbtad.c: frame dissection and histogram counters\<close>

text \<open>
  The callback \<^verbatim>\<open>got_packet\<close> of \<^verbatim>\<open>hbtad.c\<close> reads header fields of one captured frame
  through struct pointers at fixed offsets and increments global counter arrays.  The
  model passes the arrays explicitly (record \<open>histograms\<close>) and returns them updated,
  together with the diagnostic the function prints.  The frame is the list of the bytes
  that were captured, so its length is \<^verbatim>\<open>header->caplen\<close>; the source never looks at
  \<^verbatim>\<open>header\<close>.  A read at an offset that is not below that length, and a counter write
  at an index outside the array, are undefined in C; the model returns them as faults.
  Counters are C \<^verbatim>\<open>int\<close>; they are modelled as unbounded integers (a counter would need
  \<open>2^31\<close> frames to overflow).
\<close>

type_synonym byte = "8 word"

definition SNAP_LEN :: int where
  "SNAP_LEN = 1518"

definition SIZE_ETHERNET :: nat where
  "SIZE_ETHERNET = 14"

text \<open>Protocol numbers of \<^verbatim>\<open><netinet/in.h>\<close>: the values the \<^verbatim>\<open>switch\<close> compares with.\<close>

definition IPPROTO_TCP :: byte where
  "IPPROTO_TCP = 6"

definition IPPROTO_UDP :: byte where
  "IPPROTO_UDP = 17"

definition IPPROTO_ICMP :: byte where
  "IPPROTO_ICMP = 1"

definition IPPROTO_IP :: byte where
  "IPPROTO_IP = 0"

record histograms =
  src_ip_addrs :: "int list"
  dst_ip_addrs :: "int list"
  src_ports :: "int list"
  dst_ports :: "int list"
  protocols :: "int list"
  packet_sizes :: "int list"
  flags :: "int list"

text \<open>The state after the zeroing loops of \<^verbatim>\<open>load\<close>, with the declared array sizes.\<close>

definition zeroed :: histograms where
  "zeroed = \<lparr> src_ip_addrs = replicate 256 0, dst_ip_addrs = replicate 256 0,
              src_ports = replicate 1024 0, dst_ports = replicate 1024 0,
              protocols = [0, 0, 0, 0], packet_sizes = replicate 1518 0,
              flags = replicate 256 0 \<rparr>"

datatype fault =
    Read_past_caplen nat
  | Write_out_of_bounds int

text \<open>What one call prints besides the packet number.\<close>

datatype report =
    Invalid_IP_header_length int
  | Invalid_TCP_header_length int
  | PACKET_OVERSIZED int
  | No_report

definition and_then :: "'e + 'a \<Rightarrow> ('a \<Rightarrow> 'e + 'b) \<Rightarrow> 'e + 'b" where
  "and_then m f = (case m of Inl e \<Rightarrow> Inl e | Inr v \<Rightarrow> f v)"

text \<open>Loads. \<open>be\<close> says whether the host is big-endian: a \<^verbatim>\<open>u_short\<close> or \<^verbatim>\<open>u_int\<close> field is
  loaded from memory in host byte order.\<close>

definition rd8 :: "byte list \<Rightarrow> nat \<Rightarrow> fault + byte" where
  "rd8 packet i = (if i < length packet then Inr (packet ! i) else Inl (Read_past_caplen i))"

definition rd16 :: "bool \<Rightarrow> byte list \<Rightarrow> nat \<Rightarrow> fault + nat" where
  "rd16 be packet i =
     and_then (rd8 packet i) (\<lambda>b0.
     and_then (rd8 packet (i + 1)) (\<lambda>b1.
       Inr (if be then 256 * unat b0 + unat b1 else unat b0 + 256 * unat b1)))"

definition rd32 :: "bool \<Rightarrow> byte list \<Rightarrow> nat \<Rightarrow> fault + nat" where
  "rd32 be packet i =
     and_then (rd8 packet i) (\<lambda>b0.
     and_then (rd8 packet (i + 1)) (\<lambda>b1.
     and_then (rd8 packet (i + 2)) (\<lambda>b2.
     and_then (rd8 packet (i + 3)) (\<lambda>b3.
       Inr (if be then 16777216 * unat b0 + 65536 * unat b1 + 256 * unat b2 + unat b3
            else unat b0 + 256 * unat b1 + 65536 * unat b2 + 16777216 * unat b3)))))"

text \<open>\<^verbatim>\<open>ntohs\<close>: network (big-endian) to host order of a 16-bit value.\<close>

definition ntohs :: "bool \<Rightarrow> nat \<Rightarrow> nat" where
  "ntohs be x = (if be then x else 256 * (x mod 256) + x div 256)"

definition IP_HL :: "byte \<Rightarrow> int" where
  "IP_HL ip_vhl = uint (ip_vhl AND 0x0f)"

definition TH_OFF :: "byte \<Rightarrow> int" where
  "TH_OFF th_offx2 = uint (drop_bit 4 (th_offx2 AND 0xf0))"

text \<open>\<^verbatim>\<open>a[i]++\<close> on a counter array.\<close>

definition inc :: "int list \<Rightarrow> int \<Rightarrow> fault + int list" where
  "inc a i = (if 0 \<le> i \<and> i < int (length a) then Inr (a[nat i := a ! nat i + 1])
              else Inl (Write_out_of_bounds i))"

text \<open>\<^verbatim>\<open>packet_sizes[SIZE_ETHERNET + size_ip]++; return;\<close> as the non-TCP cases end.\<close>

definition count_header_size :: "histograms \<Rightarrow> int \<Rightarrow> fault + histograms \<times> report" where
  "count_header_size h size_ip =
     and_then (inc (packet_sizes h) (int SIZE_ETHERNET + size_ip)) (\<lambda>ps.
       Inr (h\<lparr>packet_sizes := ps\<rparr>, No_report))"

text \<open>The part of \<^verbatim>\<open>got_packet\<close> after the \<^verbatim>\<open>switch\<close> ("OK, this packet is TCP"),
  in three pieces: the flag and port counters (\<open>tcp\<close> is the offset of the TCP header),
  the payload size and its counter, and the header-length check that precedes both.\<close>

definition count_flags_ports :: "bool \<Rightarrow> histograms \<Rightarrow> byte list \<Rightarrow> nat \<Rightarrow> fault + histograms" where
  "count_flags_ports be h packet tcp =
     and_then (rd8 packet (tcp + 13)) (\<lambda>th_flags.
     and_then (inc (flags h) (uint th_flags)) (\<lambda>fl.
     and_then (rd16 be packet tcp) (\<lambda>th_sport.
     and_then (if int th_sport < 1024 then inc (src_ports h) (int th_sport)
               else Inr (src_ports h)) (\<lambda>sp.
     and_then (rd16 be packet (tcp + 2)) (\<lambda>th_dport.
     and_then (if int th_dport < 1024 then inc (dst_ports h) (int th_dport)
               else Inr (dst_ports h)) (\<lambda>dp.
       Inr (h\<lparr>flags := fl, src_ports := sp, dst_ports := dp\<rparr>)))))))"

definition count_payload_size :: "bool \<Rightarrow> histograms \<Rightarrow> byte list \<Rightarrow> int \<Rightarrow> int \<Rightarrow> fault + histograms \<times> report" where
  "count_payload_size be h packet size_ip size_tcp =
     and_then (rd16 be packet (SIZE_ETHERNET + 2)) (\<lambda>ip_len.
       let size_payload = int (ntohs be ip_len) - (size_ip + size_tcp)
       in if size_payload + int SIZE_ETHERNET + size_ip < SNAP_LEN
          then and_then (inc (packet_sizes h) size_payload) (\<lambda>ps.
                 Inr (h\<lparr>packet_sizes := ps\<rparr>, No_report))
          else Inr (h, PACKET_OVERSIZED (size_payload + int SIZE_ETHERNET + size_ip)))"

definition got_packet_tcp :: "bool \<Rightarrow> histograms \<Rightarrow> byte list \<Rightarrow> int \<Rightarrow> fault + histograms \<times> report" where
  "got_packet_tcp be h packet size_ip =
     (let tcp = SIZE_ETHERNET + nat size_ip in
      and_then (rd8 packet (tcp + 12)) (\<lambda>th_offx2.
        let size_tcp = TH_OFF th_offx2 * 4 in
        if size_tcp < 20 then Inr (h, Invalid_TCP_header_length size_tcp)
        else
          and_then (count_flags_ports be h packet tcp) (\<lambda>h1.
            count_payload_size be h1 packet size_ip size_tcp)))"

text \<open>The two address counters: the index is \<^verbatim>\<open>(s_addr >> 24) & 0xFF\<close> of the address as
  loaded by the host.\<close>

definition count_addresses :: "bool \<Rightarrow> histograms \<Rightarrow> byte list \<Rightarrow> fault + histograms" where
  "count_addresses be h packet =
     and_then (rd32 be packet (SIZE_ETHERNET + 12)) (\<lambda>ip_src.
     and_then (inc (src_ip_addrs h) (int ((ip_src div 2 ^ 24) mod 256))) (\<lambda>sa.
     and_then (rd32 be packet (SIZE_ETHERNET + 16)) (\<lambda>ip_dst.
     and_then (inc (dst_ip_addrs h) (int ((ip_dst div 2 ^ 24) mod 256))) (\<lambda>da.
       Inr (h\<lparr>src_ip_addrs := sa, dst_ip_addrs := da\<rparr>)))))"

definition got_packet :: "bool \<Rightarrow> histograms \<Rightarrow> byte list \<Rightarrow> fault + histograms \<times> report" where
  "got_packet be h packet =
     and_then (rd8 packet SIZE_ETHERNET) (\<lambda>ip_vhl.
       let size_ip = IP_HL ip_vhl * 4 in
       if size_ip < 20 then Inr (h, Invalid_IP_header_length size_ip)
       else
         and_then (count_addresses be h packet) (\<lambda>h1.
         and_then (rd8 packet (SIZE_ETHERNET + 9)) (\<lambda>ip_p.
           if ip_p = IPPROTO_TCP then
             and_then (inc (protocols h1) 0) (\<lambda>pr.
               got_packet_tcp be (h1\<lparr>protocols := pr\<rparr>) packet size_ip)
           else if ip_p = IPPROTO_UDP then
             and_then (inc (protocols h1) 1) (\<lambda>pr.
               count_header_size (h1\<lparr>protocols := pr\<rparr>) size_ip)
           else if ip_p = IPPROTO_ICMP then
             and_then (inc (protocols h1) 2) (\<lambda>pr.
               count_header_size (h1\<lparr>protocols := pr\<rparr>) size_ip)
           else if ip_p = IPPROTO_IP then
             and_then (inc (protocols h1) 3) (\<lambda>pr.
               count_header_size (h1\<lparr>protocols := pr\<rparr>) size_ip)
           else count_header_size h1 size_ip)))"

text \<open>The capture loop (\<^verbatim>\<open>pcap_loop\<close> with \<^verbatim>\<open>got_packet\<close> as callback) calls
  \<^verbatim>\<open>got_packet\<close> once per frame, in order; the reports are collected.\<close>

fun process_frames :: "bool \<Rightarrow> histograms \<Rightarrow> byte list list \<Rightarrow> fault + histograms \<times> report list" where
  "process_frames be h [] = Inr (h, [])"
| "process_frames be h (p # ps) =
     and_then (got_packet be h p) (\<lambda>(h1, r).
     and_then (process_frames be h1 ps) (\<lambda>(h2, rs). Inr (h2, r # rs)))"

text \<open>Test frames: 14 bytes of Ethernet header, a 20-byte IP header from 10.1.2.3 to
  192.168.0.1 with the given version/length byte, total length and protocol, and what
  follows the IP header.\<close>

definition frame :: "byte \<Rightarrow> byte \<Rightarrow> byte \<Rightarrow> byte \<Rightarrow> byte list \<Rightarrow> byte list" where
  "frame ip_vhl len_hi len_lo ip_p rest =
     [0, 0, 0, 0, 0, 0, 0, 0, 0, 0, 0, 0, 8, 0,
      ip_vhl, 0, len_hi, len_lo, 0, 0, 0, 0, 64, ip_p, 0, 0, 10, 1, 2, 3, 192, 168, 0, 1] @ rest"

text \<open>A 20-byte TCP header: source port 1234, destination port 80, the given data-offset
  byte and flags.\<close>

definition tcp_header :: "byte \<Rightarrow> byte \<Rightarrow> byte list" where
  "tcp_header th_offx2 th_flags =
     [4, 210, 0, 80, 0, 0, 0, 0, 0, 0, 0, 0, th_offx2, th_flags, 0, 0, 0, 0, 0, 0]"

text \<open>A frame adds one to the protocol counters exactly when its IP header length is
  accepted and its protocol byte is one of the four cases of the \<^verbatim>\<open>switch\<close>.\<close>

definition counts_protocol :: "byte list \<Rightarrow> bool" where
  "counts_protocol packet =
     (23 < length packet \<and> 20 \<le> IP_HL (packet ! 14) * 4 \<and>
      packet ! 23 \<in> {IPPROTO_TCP, IPPROTO_UDP, IPPROTO_ICMP, IPPROTO_IP})"

text \<open>The reports that are not one of the two "Invalid ... header length" rejections.\<close>

definition non_malformed :: "report \<Rightarrow> bool" where
  "non_malformed r =
     (case r of Invalid_IP_header_length _ \<Rightarrow> False | Invalid_TCP_header_length _ \<Rightarrow> False
      | PACKET_OVERSIZED _ \<Rightarrow> True | No_report \<Rightarrow> True)"

text \<open>The specification's statement about a finished capture: the protocol counters add
  up to the number of frames that were not rejected.\<close>

definition protocols_count_non_malformed :: "fault + histograms \<times> report list \<Rightarrow> bool" where
  "protocols_count_non_malformed res =
     (case res of Inl _ \<Rightarrow> False
      | Inr (h, rs) \<Rightarrow> sum_list (protocols h) = int (length (filter non_malformed rs)))"

section \<open>hbtad.c: the distance function\<close>

text \<open>
  \<^verbatim>\<open>n_e_d\<close> and \<^verbatim>\<open>std_dev\<close> compute in C \<^verbatim>\<open>float\<close> and \<^verbatim>\<open>double\<close>.  A finite floating-point
  value is modelled by the real number it denotes, and every operation rounds its exact
  result to the precision of its type: 24 significant bits for \<^verbatim>\<open>float\<close>, 53 for
  \<^verbatim>\<open>double\<close>, to the nearest value, ties to the even significand (IEEE 754 binary32 and
  binary64, each operation evaluated in the type of its operands).  The exponent range is
  not modelled: for vectors of 32-bit integers every intermediate value stays far from
  overflow and underflow.  The C \<^verbatim>\<open>int\<close> entries are modelled as integers and
  \<^verbatim>\<open>vec1[i] - vec2[i]\<close> as exact (it is for entries below \<open>2^30\<close> in magnitude).
\<close>

definition round_half_even :: "real \<Rightarrow> int" where
  "round_half_even y =
     (let f = \<lfloor>y\<rfloor>; r = y - of_int f
      in if r < 1 / 2 then f else if 1 / 2 < r then f + 1 else if even f then f else f + 1)"

text \<open>\<open>rnd p x\<close>: \<open>x\<close> rounded to \<open>p\<close> significant bits.  \<open>u\<close> is the unit in the last place of
  the binade of \<open>x\<close>.\<close>

definition rnd :: "nat \<Rightarrow> real \<Rightarrow> real" where
  "rnd p x =
     (if x = 0 then 0
      else let u = 2 powr (of_int \<lfloor>log 2 \<bar>x\<bar>\<rfloor> - of_nat p + 1)
           in of_int (round_half_even (x / u)) * u)"

definition to_float :: "real \<Rightarrow> real" where
  "to_float x = rnd 24 x"

definition to_double :: "real \<Rightarrow> real" where
  "to_double x = rnd 53 x"

text \<open>The value of a floating-point expression: finite, an infinity, or not a number.\<close>

datatype fval = Fin real | PInf | NInf | NaN

text \<open>\<^verbatim>\<open>x / y\<close> on finite doubles.\<close>

definition ddiv :: "real \<Rightarrow> real \<Rightarrow> fval" where
  "ddiv x y =
     (if y = 0 then (if x = 0 then NaN else if 0 < x then PInf else NInf)
      else Fin (to_double (x / y)))"

text \<open>\<^verbatim>\<open>sqrt\<close> of \<^verbatim>\<open><math.h>\<close> (double).\<close>

fun dsqrt :: "fval \<Rightarrow> fval" where
  "dsqrt (Fin x) = (if x < 0 then NaN else Fin (to_double (sqrt x)))"
| "dsqrt PInf = PInf"
| "dsqrt NInf = NaN"
| "dsqrt NaN = NaN"

text \<open>\<^verbatim>\<open>pow(v, 2)\<close> on a finite double: the square, rounded.\<close>

definition pow2 :: "real \<Rightarrow> real" where
  "pow2 v = to_double (v * v)"

text \<open>\<^verbatim>\<open>d += v\<close> for \<^verbatim>\<open>float d\<close> and a double \<open>v\<close>: the sum is formed in double and stored
  as float.\<close>

fun add_assign :: "fval \<Rightarrow> fval \<Rightarrow> fval" where
  "add_assign (Fin a) (Fin b) = Fin (to_float (to_double (a + b)))"
| "add_assign NaN v = NaN"
| "add_assign d NaN = NaN"
| "add_assign PInf NInf = NaN"
| "add_assign NInf PInf = NaN"
| "add_assign PInf v = PInf"
| "add_assign d PInf = PInf"
| "add_assign NInf v = NInf"
| "add_assign d NInf = NInf"

text \<open>\<^verbatim>\<open>std_dev(vals, n)\<close> with \<open>n\<close> the length of \<open>vals\<close>: \<^verbatim>\<open>sum\<close> is a double, the other
  variables are floats.\<close>

definition std_dev :: "real list \<Rightarrow> real" where
  "std_dev vals =
     (let n = length vals in
      if n = 0 then 0
      else
        let sum = fold (\<lambda>v s. to_double (s + v)) vals 0;
            mean = to_float (to_double (sum / real n));
            sq_diff_sum =
              fold (\<lambda>v s. let diff = to_float (v - mean)
                          in to_float (s + to_float (diff * diff))) vals 0;
            variance = to_float (sq_diff_sum / real n)
        in to_float (to_double (sqrt variance)))"

text \<open>One iteration of the loop of \<^verbatim>\<open>n_e_d\<close>, on the entries \<open>x = vec1[i]\<close> and
  \<open>y = vec2[i]\<close>; \<open>d\<close> is the accumulator.\<close>

definition n_e_d_step :: "fval \<Rightarrow> int \<Rightarrow> int \<Rightarrow> fval" where
  "n_e_d_step d x y =
     (let vals = [to_float (of_int x), to_float (of_int y)];
          sd = std_dev vals
      in add_assign d (dsqrt (ddiv (pow2 (to_double (of_int \<bar>x - y\<bar>))) (pow2 sd))))"

text \<open>The loop over \<open>i < len\<close>; the two arrays are given as the lists of their \<open>len\<close>
  entries.\<close>

fun n_e_d_loop :: "int list \<Rightarrow> int list \<Rightarrow> fval \<Rightarrow> fval" where
  "n_e_d_loop (x # xs) (y # ys) d = n_e_d_loop xs ys (n_e_d_step d x y)"
| "n_e_d_loop xs ys d = d"

definition n_e_d :: "int list \<Rightarrow> int list \<Rightarrow> fval" where
  "n_e_d vec1 vec2 = n_e_d_loop vec1 vec2 (Fin 0)"

text \<open>The distance as the specification words it, in exact real arithmetic: per
  dimension the squared difference over the squared population standard deviation
  (divisor 2) of the two values, and one square root over the sum.\<close>

definition pop_std_dev :: "real \<Rightarrow> real \<Rightarrow> real" where
  "pop_std_dev x y = sqrt (((x - (x + y) / 2)\<^sup>2 + (y - (x + y) / 2)\<^sup>2) / 2)"

definition spec_distance :: "int list \<Rightarrow> int list \<Rightarrow> real" where
  "spec_distance a b =
     sqrt (sum_list (map (\<lambda>(x, y). (of_int x - of_int y)\<^sup>2 / (pop_std_dev (of_int x) (of_int y))\<^sup>2)
                         (zip a b)))"

section \<open>hbtad.c: kmeans\<close>

text \<open>
  \<^verbatim>\<open>kmeans(vecs, num_vecs, vec_len, num_clusters)\<close>: \<open>vecs\<close> is the list of the
  \<open>num_vecs\<close> vectors.  The result is \<open>None\<close> for the \<^verbatim>\<open>NULL\<close> pointer and \<open>Some m\<close> for a
  returned mapping.  The assignment \<^verbatim>\<open>dist = n_e_d(...)\<close> converts a float to \<^verbatim>\<open>int\<close>,
  which is undefined when the value is not finite or does not fit; \<^verbatim>\<open>mean_vec\<close> divides
  by its \<^verbatim>\<open>num_vecs\<close>.  Both are faults of the model.  The centroid storage
  \<^verbatim>\<open>mean_vecs\<close> is modelled as the matrix the copy loop means to fill (the source
  allocates one block and never sets the row pointers).  An entry of the mapping is
  \<open>None\<close> while \<^verbatim>\<open>min_centroid\<close> has never been assigned.
\<close>

datatype kfault = Float_to_int_undefined | Division_by_zero

definition INT_MAX :: int where
  "INT_MAX = 2147483647"

definition float_to_int :: "fval \<Rightarrow> int option" where
  "float_to_int v =
     (case v of
        Fin x \<Rightarrow>
          (let t = (if 0 \<le> x then \<lfloor>x\<rfloor> else \<lceil>x\<rceil>)
           in if - INT_MAX - 1 \<le> t \<and> t \<le> INT_MAX then Some t else None)
      | PInf \<Rightarrow> None | NInf \<Rightarrow> None | NaN \<Rightarrow> None)"

text \<open>The loop over the centroids \<open>j\<close> for one vector \<open>v\<close> (lines 796-805).  \<^verbatim>\<open>min_dist\<close> is
  never assigned in the source (the body assigns \<^verbatim>\<open>dist = min_dist\<close>), so it is passed
  along unchanged; \<open>dist_j\<close> is the value of \<^verbatim>\<open>dist\<close> in iteration \<open>j\<close>.\<close>

fun assign_vec :: "int list \<Rightarrow> int list list \<Rightarrow> nat \<Rightarrow> int \<Rightarrow> int option \<Rightarrow> kfault + int option" where
  "assign_vec v [] j min_dist min_centroid = Inr min_centroid"
| "assign_vec v (c # cs) j min_dist min_centroid =
     (case float_to_int (n_e_d v c) of
        None \<Rightarrow> Inl Float_to_int_undefined
      | Some dist_j \<Rightarrow>
          assign_vec v cs (Suc j) min_dist
            (if dist_j < min_dist then Some (int j) else min_centroid))"

text \<open>The loop over the vectors \<open>i\<close> (lines 794-808), returning \<^verbatim>\<open>map\<close>.  \<^verbatim>\<open>min_centroid\<close>
  is not reset between vectors.\<close>

fun assign_all :: "int list list \<Rightarrow> int list list \<Rightarrow> int \<Rightarrow> int option \<Rightarrow> kfault + int option list" where
  "assign_all [] mean_vecs min_dist min_centroid = Inr []"
| "assign_all (v # vs) mean_vecs min_dist min_centroid =
     and_then (assign_vec v mean_vecs 0 min_dist min_centroid) (\<lambda>mc.
     and_then (assign_all vs mean_vecs min_dist mc) (\<lambda>m. Inr (mc # m)))"

text \<open>C integer division truncates towards zero.\<close>

definition tdiv :: "int \<Rightarrow> int \<Rightarrow> int" where
  "tdiv a b = sgn a * sgn b * (\<bar>a\<bar> div \<bar>b\<bar>)"

text \<open>\<^verbatim>\<open>mean_vec(m_vec, vecs, num_vecs, vec_len)\<close>: the means are written to a block the
  function allocates itself, so the caller's \<^verbatim>\<open>m_vec\<close> is not changed; the model returns
  what is written there.\<close>

definition mean_vec :: "int list list \<Rightarrow> nat \<Rightarrow> kfault + int list" where
  "mean_vec vecs vec_len =
     (if vec_len = 0 then Inr []
      else if vecs = [] then Inl Division_by_zero
      else Inr (map (\<lambda>i. tdiv (sum_list (map (\<lambda>v. v ! i) vecs)) (int (length vecs)))
                    [0..<vec_len]))"

text \<open>The loop "compute new centroids" (lines 811-825) over the cluster numbers \<open>is\<close>.\<close>

fun compute_centroids :: "int list list \<Rightarrow> nat \<Rightarrow> int option list \<Rightarrow> nat list \<Rightarrow> kfault + unit" where
  "compute_centroids vecs vec_len m [] = Inr ()"
| "compute_centroids vecs vec_len m (i # is) =
     and_then (mean_vec (map fst (filter (\<lambda>(v, c). c = Some (int i)) (zip vecs m))) vec_len)
       (\<lambda>_. compute_centroids vecs vec_len m is)"

definition kmeans :: "int list list \<Rightarrow> nat \<Rightarrow> int \<Rightarrow> kfault + int option list option" where
  "kmeans vecs vec_len num_clusters =
     (if int (length vecs) < num_clusters then Inr None
      else
        let mean_vecs = map (take vec_len) (take (nat num_clusters) vecs) in
        and_then (assign_all vecs mean_vecs INT_MAX None) (\<lambda>m.
        and_then (compute_centroids vecs vec_len m [0..<nat num_clusters]) (\<lambda>_.
          Inr None)))"

section \<open>Properties of the dissector\<close>

lemma and_then_Inr:
  "and_then m f = Inr y \<longleftrightarrow> (\<exists>x. m = Inr x \<and> f x = Inr y)"
  by (cases m) (simp_all add: and_then_def)

lemma rd8_short: "length packet \<le> i \<Longrightarrow> rd8 packet i = Inl (Read_past_caplen i)"
  by (simp add: rd8_def)

lemma inc_Inr:
  "inc a i = Inr a' \<longleftrightarrow> 0 \<le> i \<and> nat i < length a \<and> a' = a[nat i := a ! nat i + 1]"
  by (auto simp: inc_def)

lemma sum_list_bump: "k < length a \<Longrightarrow> sum_list (a[k := a ! k + 1]) = sum_list a + (1::int)"
  by (induction a arbitrary: k) (auto split: nat.splits)

lemma sum_list_inc: "inc a i = Inr a' \<Longrightarrow> sum_list a' = sum_list a + 1"
  by (auto simp: inc_Inr sum_list_bump)

lemma rd8_Inr: "rd8 packet i = Inr b \<longleftrightarrow> i < length packet \<and> b = packet ! i"
  by (auto simp: rd8_def)

lemma count_header_size_Inr:
  "count_header_size h s = Inr (h', r) \<Longrightarrow>
     r = No_report \<and> protocols h' = protocols h \<and> src_ip_addrs h' = src_ip_addrs h \<and>
     dst_ip_addrs h' = dst_ip_addrs h \<and> flags h' = flags h \<and> src_ports h' = src_ports h \<and>
     dst_ports h' = dst_ports h"
  by (auto simp: count_header_size_def and_then_Inr)

lemma count_flags_ports_Inr:
  "count_flags_ports be h packet tcp = Inr h' \<Longrightarrow>
     protocols h' = protocols h \<and> src_ip_addrs h' = src_ip_addrs h \<and>
     dst_ip_addrs h' = dst_ip_addrs h \<and> packet_sizes h' = packet_sizes h"
  by (auto simp: count_flags_ports_def and_then_Inr)

lemma count_payload_size_Inr:
  "count_payload_size be h packet s t = Inr (h', r) \<Longrightarrow>
     protocols h' = protocols h \<and> src_ip_addrs h' = src_ip_addrs h \<and>
     dst_ip_addrs h' = dst_ip_addrs h \<and> flags h' = flags h \<and> src_ports h' = src_ports h \<and>
     dst_ports h' = dst_ports h \<and> non_malformed r"
  by (auto simp: count_payload_size_def and_then_Inr Let_def non_malformed_def split: if_splits)

lemma count_addresses_Inr:
  "count_addresses be h packet = Inr h' \<Longrightarrow>
     protocols h' = protocols h \<and> flags h' = flags h \<and> src_ports h' = src_ports h \<and>
     dst_ports h' = dst_ports h \<and> packet_sizes h' = packet_sizes h \<and>
     sum_list (src_ip_addrs h') = sum_list (src_ip_addrs h) + 1 \<and>
     sum_list (dst_ip_addrs h') = sum_list (dst_ip_addrs h) + 1"
  by (auto simp: count_addresses_def and_then_Inr dest: sum_list_inc)

lemma got_packet_tcp_Inr:
  assumes "got_packet_tcp be h packet s = Inr (h', r)"
  shows "protocols h' = protocols h \<and> src_ip_addrs h' = src_ip_addrs h \<and>
         dst_ip_addrs h' = dst_ip_addrs h \<and> r \<noteq> Invalid_IP_header_length n \<and>
         (r = Invalid_TCP_header_length n \<longrightarrow> h' = h)"
  using assms
  by (auto simp: got_packet_tcp_def and_then_Inr Let_def non_malformed_def split: if_splits
      dest!: count_flags_ports_Inr count_payload_size_Inr)

lemma got_packet_protocols:
  assumes "got_packet be h packet = Inr (h', r)"
  shows "sum_list (protocols h') =
         sum_list (protocols h) + (if counts_protocol packet then 1 else 0)"
  using assms
  by (auto simp: got_packet_def and_then_Inr Let_def rd8_Inr SIZE_ETHERNET_def counts_protocol_def
      split: if_splits
      dest!: got_packet_tcp_Inr count_header_size_Inr sum_list_inc count_addresses_Inr)

text \<open>Unfolding the whole dissector, to run it on a concrete frame.\<close>

lemmas run_got_packet =
  got_packet_def got_packet_tcp_def count_header_size_def count_flags_ports_def
  count_payload_size_def count_addresses_def frame_def tcp_header_def and_then_def
  rd8_def rd16_def rd32_def ntohs_def IP_HL_def TH_OFF_def inc_def SIZE_ETHERNET_def
  SNAP_LEN_def IPPROTO_TCP_def IPPROTO_UDP_def IPPROTO_ICMP_def IPPROTO_IP_def zeroed_def

text \<open>
  Claim C8 (the dissector checks every header access against caplen and reports a frame
  that is too short as malformed, reading nothing at or beyond caplen).  The code does
  not: it never consults caplen.  For every frame of at most 14 captured bytes the first
  thing \<^verbatim>\<open>got_packet\<close> does is read the byte at offset 14, which is not captured data.
\<close>

theorem got_packet_reads_past_caplen:
  "length packet \<le> 14 \<Longrightarrow> got_packet be h packet = Inl (Read_past_caplen 14)"
  by (simp add: got_packet_def SIZE_ETHERNET_def rd8_short and_then_def)

theorem got_packet_reads_past_caplen_witness:
  "length [0, 0, 0, 0, 0, 0, 0, 0, 0, 0, 0, 0, 8, 0 :: byte] \<le> 14 \<and>
   got_packet False zeroed [0, 0, 0, 0, 0, 0, 0, 0, 0, 0, 0, 0, 8, 0] = Inl (Read_past_caplen 14)"
  using got_packet_reads_past_caplen [of "[0, 0, 0, 0, 0, 0, 0, 0, 0, 0, 0, 0, 8, 0]" False zeroed]
  by simp

text \<open>The same happens when the Ethernet header and the first byte of the IP header are
  captured but the IP header is not: the source address is read at offsets 26 to 29.\<close>

lemma got_packet_reads_past_truncated_ip_header:
  assumes "14 < length packet" and "length packet \<le> 26" and "5 \<le> IP_HL (packet ! 14)"
  shows "got_packet be h packet = Inl (Read_past_caplen 26)"
  using assms
  by (simp add: got_packet_def count_addresses_def rd32_def rd8_def and_then_def
      SIZE_ETHERNET_def)

subsection \<open>Rejected frames\<close>

lemma ip_header_length_rejected:
  "14 < length packet \<Longrightarrow> IP_HL (packet ! 14) < 5 \<Longrightarrow>
   got_packet be h packet = Inr (h, Invalid_IP_header_length (IP_HL (packet ! 14) * 4))"
  by (simp add: got_packet_def rd8_def and_then_def SIZE_ETHERNET_def)

lemma tcp_data_offset_rejected:
  "SIZE_ETHERNET + nat size_ip + 12 < length packet \<Longrightarrow>
   TH_OFF (packet ! (SIZE_ETHERNET + nat size_ip + 12)) < 5 \<Longrightarrow>
   got_packet_tcp be h packet size_ip =
     Inr (h, Invalid_TCP_header_length (TH_OFF (packet ! (SIZE_ETHERNET + nat size_ip + 12)) * 4))"
  by (simp add: got_packet_tcp_def rd8_def and_then_def Let_def)

text \<open>
  Claim C4, as stated (no histogram counter changes for a frame that ends as malformed,
  in particular for a TCP data offset below 5), fails: the TCP header is checked after
  the address and protocol counters have been incremented.  On a little-endian host, a
  TCP frame from 10.1.2.3 to 192.168.0.1 whose data-offset field is 0 is rejected with
  "Invalid TCP header length: 0 bytes" and has incremented \<^verbatim>\<open>src_ip_addrs[3]\<close>,
  \<^verbatim>\<open>dst_ip_addrs[1]\<close> and \<^verbatim>\<open>protocols[0]\<close>.
\<close>

theorem tcp_rejected_frame_is_counted:
  "got_packet False zeroed (frame 0x45 0 40 6 (tcp_header 0 2)) =
     Inr (zeroed\<lparr>src_ip_addrs := (replicate 256 0)[3 := 1],
                  dst_ip_addrs := (replicate 256 0)[1 := 1],
                  protocols := [1, 0, 0, 0]\<rparr>,
          Invalid_TCP_header_length 0)"
  by (simp add: run_got_packet)

text \<open>
  Claim C4, amended: a frame rejected for its IP header length changes no counter at all.
  A frame rejected for its TCP header length leaves the flag, port and packet-size
  counters unchanged, and has added one to \<^verbatim>\<open>protocols[0]\<close>, to one source-address
  counter and to one destination-address counter.
\<close>

theorem malformed_frame_effect:
  assumes "got_packet be h packet = Inr (h', r)"
    and "r = Invalid_IP_header_length n \<or> r = Invalid_TCP_header_length n"
  shows "flags h' = flags h \<and> src_ports h' = src_ports h \<and> dst_ports h' = dst_ports h \<and>
         packet_sizes h' = packet_sizes h \<and>
         (if r = Invalid_IP_header_length n then h' = h
          else protocols h' = (protocols h)[0 := protocols h ! 0 + 1] \<and>
               sum_list (src_ip_addrs h') = sum_list (src_ip_addrs h) + 1 \<and>
               sum_list (dst_ip_addrs h') = sum_list (dst_ip_addrs h) + 1)"
  using assms
  by (auto simp: got_packet_def and_then_Inr Let_def inc_Inr split: if_splits
      dest!: got_packet_tcp_Inr [where n = n] count_header_size_Inr count_addresses_Inr)

theorem malformed_frame_effect_witness:
  "got_packet True zeroed (frame 0x43 0 40 6 (tcp_header 0x50 2)) =
     Inr (zeroed, Invalid_IP_header_length 12) \<and>
   got_packet True zeroed (frame 0x45 0 40 6 (tcp_header 0x40 2)) =
     Inr (zeroed\<lparr>src_ip_addrs := (replicate 256 0)[10 := 1],
                  dst_ip_addrs := (replicate 256 0)[192 := 1],
                  protocols := [1, 0, 0, 0]\<rparr>,
          Invalid_TCP_header_length 16) \<and>
   flags (zeroed\<lparr>src_ip_addrs := (replicate 256 0)[10 := 1],
                 dst_ip_addrs := (replicate 256 0)[192 := 1],
                 protocols := [1, 0, 0, 0]\<rparr>) = flags zeroed \<and>
   packet_sizes (zeroed\<lparr>src_ip_addrs := (replicate 256 0)[10 := 1],
                 dst_ip_addrs := (replicate 256 0)[192 := 1],
                 protocols := [1, 0, 0, 0]\<rparr>) = packet_sizes zeroed \<and>
   sum_list (src_ip_addrs (zeroed\<lparr>src_ip_addrs := (replicate 256 0)[10 := 1],
                 dst_ip_addrs := (replicate 256 0)[192 := 1],
                 protocols := [1, 0, 0, 0]\<rparr>)) = sum_list (src_ip_addrs zeroed) + 1"
proof -
  have a: "got_packet True zeroed (frame 0x43 0 40 6 (tcp_header 0x50 2)) =
     Inr (zeroed, Invalid_IP_header_length 12)"
    by (simp add: run_got_packet)
  have b: "got_packet True zeroed (frame 0x45 0 40 6 (tcp_header 0x40 2)) =
     Inr (zeroed\<lparr>src_ip_addrs := (replicate 256 0)[10 := 1],
                  dst_ip_addrs := (replicate 256 0)[192 := 1],
                  protocols := [1, 0, 0, 0]\<rparr>,
          Invalid_TCP_header_length 16)"
    by (simp add: run_got_packet)
  from a b malformed_frame_effect [OF a, of 12] malformed_frame_effect [OF b, of 16]
  show ?thesis by simp
qed

subsection \<open>The protocol counters\<close>

text \<open>
  Claim C5, as stated (the protocol counters add up to the number of non-malformed
  frames, frames of other protocols included), fails: the \<^verbatim>\<open>default\<close> case of the
  \<^verbatim>\<open>switch\<close> increments no protocol counter ("Consider if we want to keep track of these
  or not").  A single GRE frame (protocol 47) is processed without a rejection and leaves
  all four protocol counters at 0.
\<close>

theorem other_protocol_not_counted:
  "process_frames False zeroed [frame 0x45 0 40 47 []] =
     Inr (zeroed\<lparr>src_ip_addrs := (replicate 256 0)[3 := 1],
                  dst_ip_addrs := (replicate 256 0)[1 := 1],
                  packet_sizes := (replicate 1518 0)[34 := 1]\<rparr>, [No_report]) \<and>
   \<not> protocols_count_non_malformed (process_frames False zeroed [frame 0x45 0 40 47 []])"
  by (simp add: protocols_count_non_malformed_def non_malformed_def run_got_packet)

text \<open>
  Claim C5, amended: a frame adds exactly one to the protocol counters when its IP header
  length is accepted and its protocol is TCP, UDP, ICMP or \<^verbatim>\<open>IPPROTO_IP\<close> (also when its
  TCP header is rejected afterwards), and nothing otherwise; so after a capture the
  protocol counters have grown by the number of such frames.
\<close>

theorem process_frames_protocols:
  "process_frames be h ps = Inr (h', rs) \<Longrightarrow>
   sum_list (protocols h') = sum_list (protocols h) + int (length (filter counts_protocol ps))"
proof (induction ps arbitrary: h h' rs)
  case Nil
  then show ?case by simp
next
  case (Cons p ps)
  from Cons.prems obtain h1 r h2 rs' where
    a: "got_packet be h p = Inr (h1, r)" and b: "process_frames be h1 ps = Inr (h2, rs')"
    and c: "h' = h2"
    by (auto simp: and_then_Inr)
  from got_packet_protocols [OF a] Cons.IH [OF b] c show ?case by simp
qed

theorem process_frames_protocols_witness:
  "process_frames False zeroed
     [frame 0x45 0 40 6 (tcp_header 0x50 2), frame 0x43 0 28 1 [],
      frame 0x45 0 28 1 [8, 0, 0, 0, 0, 0, 0, 0], frame 0x45 0 40 47 []] =
   Inr (zeroed\<lparr>src_ip_addrs := (replicate 256 0)[3 := 3],
                dst_ip_addrs := (replicate 256 0)[1 := 3],
                protocols := [1, 0, 1, 0], flags := (replicate 256 0)[2 := 1],
                packet_sizes := (replicate 1518 0)[0 := 1, 34 := 2]\<rparr>,
        [No_report, Invalid_IP_header_length 12, No_report, No_report]) \<and>
   sum_list [1, 0, 1, 0 :: int] =
     sum_list (protocols zeroed) +
     int (length (filter counts_protocol
       [frame 0x45 0 40 6 (tcp_header 0x50 2), frame 0x43 0 28 1 [],
        frame 0x45 0 28 1 [8, 0, 0, 0, 0, 0, 0, 0], frame 0x45 0 40 47 []]))"
proof -
  have a: "process_frames False zeroed
     [frame 0x45 0 40 6 (tcp_header 0x50 2), frame 0x43 0 28 1 [],
      frame 0x45 0 28 1 [8, 0, 0, 0, 0, 0, 0, 0], frame 0x45 0 40 47 []] =
   Inr (zeroed\<lparr>src_ip_addrs := (replicate 256 0)[3 := 3],
                dst_ip_addrs := (replicate 256 0)[1 := 3],
                protocols := [1, 0, 1, 0], flags := (replicate 256 0)[2 := 1],
                packet_sizes := (replicate 1518 0)[0 := 1, 34 := 2]\<rparr>,
        [No_report, Invalid_IP_header_length 12, No_report, No_report])"
    by (simp add: run_got_packet)
  from a process_frames_protocols [OF a] show ?thesis by simp
qed

subsection \<open>The port counters\<close>

lemma rd16_Inr:
  "rd16 be packet i = Inr v \<longleftrightarrow>
     i + 1 < length packet \<and>
     v = (if be then 256 * unat (packet ! i) + unat (packet ! (i + 1))
          else unat (packet ! i) + 256 * unat (packet ! (i + 1)))"
  by (auto simp: rd16_def and_then_Inr rd8_Inr)

lemma dst_port_counted_in_host_order:
  assumes "count_flags_ports be h packet tcp = Inr h'"
  shows "\<exists>p. rd16 be packet (tcp + 2) = Inr p \<and>
             dst_ports h' = (if p < 1024 then (dst_ports h)[p := dst_ports h ! p + 1]
                             else dst_ports h)"
proof -
  from assms obtain fl sp p dp where
    p: "rd16 be packet (tcp + 2) = Inr p"
    and dp: "(if int p < 1024 then inc (dst_ports h) (int p) else Inr (dst_ports h)) = Inr dp"
    and h': "h' = h\<lparr>flags := fl, src_ports := sp, dst_ports := dp\<rparr>"
    unfolding count_flags_ports_def and_then_Inr by blast
  from dp have "dp = (if p < 1024 then (dst_ports h)[p := dst_ports h ! p + 1] else dst_ports h)"
    by (simp add: inc_Inr split: if_splits)
  with p h' show ?thesis by simp
qed

text \<open>
  Claim C6 (a TCP frame with destination port \<open>p\<close> increments \<^verbatim>\<open>dst_ports[p]\<close> iff
  \<open>p < 1024\<close>, \<open>p\<close> being the port carried in the header).  The code compares and indexes
  with \<^verbatim>\<open>tcp->th_dport\<close> as loaded by the host, without \<^verbatim>\<open>ntohs\<close> (which it applies to
  \<^verbatim>\<open>ip_len\<close>, and to the ports in the commented-out \<^verbatim>\<open>printf\<close>).  On a little-endian host
  a well-formed SYN from port 1234 to port 80 is loaded as port 20480: no entry of
  \<^verbatim>\<open>dst_ports\<close> or \<^verbatim>\<open>src_ports\<close> changes, and \<^verbatim>\<open>dst_ports[80]\<close> stays 0.
\<close>

theorem port_80_not_counted_little_endian:
  "got_packet False zeroed (frame 0x45 0 40 6 (tcp_header 0x50 2)) =
     Inr (\<lparr>src_ip_addrs = (replicate 256 0)[3 := 1],
           dst_ip_addrs = (replicate 256 0)[1 := 1],
           src_ports = replicate 1024 0, dst_ports = replicate 1024 0,
           protocols = [1, 0, 0, 0], packet_sizes = (replicate 1518 0)[0 := 1],
           flags = (replicate 256 0)[2 := 1]\<rparr>, No_report)"
  by (simp add: run_got_packet)

lemma port_80_counted_big_endian:
  "got_packet True zeroed (frame 0x45 0 40 6 (tcp_header 0x50 2)) =
     Inr (\<lparr>src_ip_addrs = (replicate 256 0)[10 := 1],
           dst_ip_addrs = (replicate 256 0)[192 := 1],
           src_ports = replicate 1024 0, dst_ports = (replicate 1024 0)[80 := 1],
           protocols = [1, 0, 0, 0], packet_sizes = (replicate 1518 0)[0 := 1],
           flags = (replicate 256 0)[2 := 1]\<rparr>, No_report)"
  by (simp add: run_got_packet)

subsection \<open>The payload size\<close>

text \<open>
  Claim C7 (a negative payload length is flagged oversized and no packet-size index
  outside \<open>[0, SNAP_LEN)\<close> is written).  The code only tests
  \<^verbatim>\<open>size_payload+SIZE_ETHERNET+size_ip < SNAP_LEN\<close>, which a negative payload length
  passes.  A TCP frame whose IP total length field is 0 has payload length \<open>-40\<close>, and
  the code executes \<^verbatim>\<open>packet_sizes[-40]++\<close>.
\<close>

theorem negative_payload_size_written:
  "got_packet False zeroed (frame 0x45 0 0 6 (tcp_header 0x50 2)) =
     Inl (Write_out_of_bounds (- 40))"
  by (simp add: run_got_packet)

lemma payload_size_index_below_SNAP_LEN:
  assumes "count_payload_size be h packet size_ip size_tcp = Inr (h', No_report)"
    and "0 \<le> size_ip"
  shows "\<exists>i. i < SNAP_LEN - 14 \<and> inc (packet_sizes h) i = Inr (packet_sizes h')"
proof -
  from assms(1) obtain ip_len ps where
    a: "int (ntohs be ip_len) - (size_ip + size_tcp) + int SIZE_ETHERNET + size_ip < SNAP_LEN"
    and b: "inc (packet_sizes h) (int (ntohs be ip_len) - (size_ip + size_tcp)) = Inr ps"
    and c: "h' = h\<lparr>packet_sizes := ps\<rparr>"
    by (auto simp: count_payload_size_def and_then_Inr Let_def split: if_splits)
  from a assms(2) have "int (ntohs be ip_len) - (size_ip + size_tcp) < SNAP_LEN - 14"
    by (simp add: SIZE_ETHERNET_def)
  with b c show ?thesis by auto
qed

section \<open>Properties of the distance function\<close>

subsection \<open>Values that need no rounding\<close>

lemma round_half_even_of_int: "round_half_even (of_int n) = n"
  by (simp add: round_half_even_def)

lemma rnd_exact:
  assumes "\<bar>m\<bar> < 2 ^ p"
  shows "rnd p (of_int m * 2 powr of_int e) = of_int m * 2 powr of_int e"
proof (cases "m = 0")
  case True
  then show ?thesis by (simp add: rnd_def)
next
  case False
  define x :: real where "x = of_int m * 2 powr of_int e"
  define E where "E = \<lfloor>log 2 \<bar>x\<bar>\<rfloor>"
  define k where "k = e - (E - int p + 1)"
  have x0: "x \<noteq> 0" using False by (simp add: x_def)
  have absx: "\<bar>x\<bar> = of_int \<bar>m\<bar> * 2 powr of_int e"
    by (simp add: x_def abs_mult)
  have "of_int \<bar>m\<bar> < (2::real) ^ p"
    using assms by (metis of_int_less_iff of_int_numeral of_int_power)
  then have "\<bar>x\<bar> < 2 ^ p * 2 powr of_int e"
    unfolding absx by (simp)
  also have "\<dots> = 2 powr (of_nat p + of_int e)"
    by (simp add: powr_add powr_realpow)
  finally have "log 2 \<bar>x\<bar> < of_nat p + of_int e"
    using x0 by (simp add: log_less_iff)
  then have "E < int p + e"
    unfolding E_def by linarith
  then have k0: "0 \<le> k" by (simp add: k_def)
  have u: "2 powr (of_int E - of_nat p + 1) = (2::real) powr of_int (E - int p + 1)"
    by simp
  have "x / 2 powr of_int (E - int p + 1) = of_int m * 2 powr (of_int e - of_int (E - int p + 1))"
    by (simp add: x_def powr_diff)
  also have "of_int e - of_int (E - int p + 1) = (of_int k :: real)"
    by (simp add: k_def)
  also have "(2::real) powr of_int k = 2 ^ nat k"
    using k0 by (simp add: powr_realpow [symmetric])
  also have "of_int m * (2::real) ^ nat k = of_int (m * 2 ^ nat k)"
    by simp
  finally have q: "x / 2 powr of_int (E - int p + 1) = of_int (m * 2 ^ nat k)" .
  have "rnd p x = of_int (m * 2 ^ nat k) * 2 powr of_int (E - int p + 1)"
    using x0 unfolding rnd_def Let_def E_def [symmetric] u q round_half_even_of_int by simp
  also have "\<dots> = of_int m * (2 powr of_int k * 2 powr of_int (E - int p + 1))"
    using k0 by (simp add: powr_realpow [symmetric])
  also have "2 powr of_int k * 2 powr of_int (E - int p + 1) = (2::real) powr of_int e"
    unfolding powr_add [symmetric] by (simp add: k_def)
  finally show ?thesis by (simp add: x_def)
qed

lemma rnd_div_pow2:
  "\<bar>m\<bar> < 2 ^ p \<Longrightarrow> rnd p (of_int m / 2 ^ j) = of_int m / 2 ^ j"
  using rnd_exact [of m p "- int j"]
  by (simp add: powr_minus powr_realpow field_simps)

lemma rnd_of_int: "\<bar>m\<bar> < 2 ^ p \<Longrightarrow> rnd p (of_int m) = of_int m"
  using rnd_div_pow2 [of m p 0] by simp

lemma rnd_mult_pow2:
  "\<bar>m\<bar> < 2 ^ p \<Longrightarrow> rnd p (of_int m * 2 ^ j) = of_int m * 2 ^ j"
  using rnd_exact [of m p "int j"]
  by (simp add: powr_realpow)

lemma to_float_exact:
  "\<bar>m\<bar> < 16777216 \<Longrightarrow> to_float (of_int m / 2 ^ j) = of_int m / 2 ^ j"
  unfolding to_float_def by (rule rnd_div_pow2) simp

lemma to_double_exact:
  "\<bar>m\<bar> < 16777216 \<Longrightarrow> to_double (of_int m / 2 ^ j) = of_int m / 2 ^ j"
  unfolding to_double_def by (rule rnd_div_pow2) simp

lemma to_float_of_int: "\<bar>m\<bar> < 16777216 \<Longrightarrow> to_float (of_int m) = of_int m"
  using to_float_exact [of m 0] by simp

lemma to_double_of_int: "\<bar>m\<bar> < 16777216 \<Longrightarrow> to_double (of_int m) = of_int m"
  using to_double_exact [of m 0] by simp

lemma to_float_half:
  fixes D :: int
  assumes "\<bar>D\<bar> \<le> 16777216"
  shows "to_float (of_int D / 2) = of_int D / 2"
proof (cases "\<bar>D\<bar> < 16777216")
  case True
  from to_float_exact [OF this, of 1] show ?thesis by simp
next
  case False
  with assms have "D = 16777216 \<or> D = - 16777216" by auto
  then show ?thesis
    using to_float_of_int [of 8388608] to_float_of_int [of "- 8388608"] by auto
qed

lemma rnd_0: "rnd p 0 = 0"
  by (simp add: rnd_def)

lemma rnd_twice: "rnd p (2 * x) = 2 * rnd p x"
proof (cases "x = 0")
  case True
  then show ?thesis by (simp add: rnd_def)
next
  case False
  have "log 2 \<bar>2 * x\<bar> = 1 + log 2 \<bar>x\<bar>"
    using False by (simp add: abs_mult log_mult)
  then have "\<lfloor>log 2 \<bar>2 * x\<bar>\<rfloor> = \<lfloor>log 2 \<bar>x\<bar>\<rfloor> + 1"
    by simp
  then show ?thesis
    using False by (simp add: rnd_def Let_def powr_add mult.commute)
qed

lemma floor_log2_eq:
  assumes "2 ^ n \<le> x" and "x < 2 ^ Suc n"
  shows "\<lfloor>log 2 x\<rfloor> = int n"
proof -
  have "0 < x" using assms(1) by (smt (verit) zero_less_power)
  then show ?thesis
    using assms by (simp add: floor_log_eq_powr_iff powr_realpow powr_add)
qed

lemma to_float_16777217: "to_float 16777217 = 16777216"
proof -
  have "\<lfloor>log 2 \<bar>16777217 :: real\<bar>\<rfloor> = int 24"
    by (rule floor_log2_eq) simp_all
  then show ?thesis
    by (simp add: to_float_def rnd_def round_half_even_def)
qed

lemma to_float_tie: "to_float (16777217 / 2) = 8388608"
proof -
  have "\<lfloor>log 2 \<bar>16777217 / 2 :: real\<bar>\<rfloor> = int 23"
    by (rule floor_log2_eq) simp_all
  then show ?thesis
    by (simp add: to_float_def rnd_def round_half_even_def)
qed

subsection \<open>Rounded values are representable\<close>

lemma round_half_even_cases: "round_half_even t = \<lfloor>t\<rfloor> \<or> round_half_even t = \<lfloor>t\<rfloor> + 1"
  by (simp add: round_half_even_def Let_def)

lemma round_half_even_bound:
  assumes "\<bar>t\<bar> < 2 ^ p"
  shows "\<bar>round_half_even t\<bar> \<le> 2 ^ p"
proof -
  have "t < of_int (2 ^ p)" "- of_int (2 ^ p) < t"
    using assms by auto
  then have "\<lfloor>t\<rfloor> < 2 ^ p" "- (2 ^ p) \<le> \<lfloor>t\<rfloor>"
    by (simp_all add: floor_less_iff le_floor_iff)
  with round_half_even_cases [of t] show ?thesis by auto
qed

lemma rnd_representable:
  assumes "0 < p"
  shows "\<exists>m e. \<bar>m\<bar> < 2 ^ p \<and> rnd p z = of_int m * 2 powr of_int e"
proof (cases "z = 0")
  case True
  then have "\<bar>0::int\<bar> < 2 ^ p \<and> rnd p z = of_int 0 * 2 powr of_int 0"
    by (simp add: rnd_def)
  then show ?thesis by blast
next
  case False
  define E where "E = \<lfloor>log 2 \<bar>z\<bar>\<rfloor>"
  define e where "e = E - int p + 1"
  define t where "t = z / 2 powr of_int e"
  define r where "r = round_half_even t"
  have rz: "rnd p z = of_int r * 2 powr of_int e"
    using False by (simp add: rnd_def Let_def r_def t_def e_def E_def)
  have "log 2 \<bar>z\<bar> < of_int E + 1"
    unfolding E_def by linarith
  then have "\<bar>z\<bar> < 2 powr (of_int E + 1)"
    using False by (simp add: log_less_iff)
  also have "\<dots> = 2 ^ p * 2 powr of_int e"
    by (simp add: e_def powr_add [symmetric] powr_realpow [symmetric])
  finally have "\<bar>t\<bar> < 2 ^ p"
    by (simp add: t_def pos_divide_less_eq)
  then have rb: "\<bar>r\<bar> \<le> 2 ^ p"
    unfolding r_def by (rule round_half_even_bound)
  show ?thesis
  proof (cases "\<bar>r\<bar> < 2 ^ p")
    case True
    with rz show ?thesis by blast
  next
    case False
    with rb have "\<bar>r\<bar> = 2 ^ p" by simp
    define m where "m = sgn r * 2 ^ (p - 1)"
    have pp: "(2::int) ^ p = 2 * 2 ^ (p - 1)"
      using assms by (cases p) simp_all
    have m: "r = 2 * m" "\<bar>m\<bar> = 2 ^ (p - 1)"
      using \<open>\<bar>r\<bar> = 2 ^ p\<close> unfolding m_def pp
      by (auto simp: abs_if sgn_if split: if_splits)
    have "\<bar>m\<bar> < 2 ^ p"
      unfolding m(2) pp by simp
    moreover have "rnd p z = of_int m * 2 powr of_int (e + 1)"
      by (simp add: rz m(1) powr_add)
    ultimately show ?thesis by blast
  qed
qed

lemma rnd_rnd:
  assumes "0 < p" and "p \<le> q"
  shows "rnd q (rnd p z) = rnd p z"
proof -
  from rnd_representable [OF assms(1), of z] obtain m e where
    m: "\<bar>m\<bar> < 2 ^ p" and z: "rnd p z = of_int m * 2 powr of_int e"
    by blast
  have "(2::int) ^ p \<le> 2 ^ q"
    using assms(2) by (simp add: power_increasing)
  with m have "\<bar>m\<bar> < 2 ^ q" by linarith
  then show ?thesis
    unfolding z by (rule rnd_exact)
qed

lemma to_float_idem: "to_float (to_float z) = to_float z"
  by (simp add: to_float_def rnd_rnd)

lemma to_double_to_float: "to_double (to_float z) = to_float z"
  by (simp add: to_float_def to_double_def rnd_rnd)

subsection \<open>The rounding error\<close>

lemma round_half_even_error: "\<bar>of_int (round_half_even y) - y\<bar> \<le> 1 / 2"
  unfolding round_half_even_def Let_def
  by (auto simp: abs_if) linarith+

lemma round_half_even_near:
  assumes "\<bar>z - of_int k\<bar> < 1 / 2"
  shows "round_half_even z = k"
proof -
  have "\<lfloor>z\<rfloor> = k \<or> \<lfloor>z\<rfloor> = k - 1"
    using assms by (auto simp: abs_if floor_eq_iff split: if_splits)
  then show ?thesis
  proof
    assume f: "\<lfloor>z\<rfloor> = k"
    then have "z - of_int k < 1 / 2" using assms by (auto simp: abs_if split: if_splits)
    then show ?thesis by (simp add: round_half_even_def Let_def f)
  next
    assume f: "\<lfloor>z\<rfloor> = k - 1"
    then have "z < of_int k" by (metis floor_less_iff diff_add_cancel less_add_one)
    then have "1 / 2 < z - of_int (k - 1)" using assms by (auto simp: abs_if split: if_splits)
    then show ?thesis by (simp add: round_half_even_def Let_def f)
  qed
qed

lemma binade:
  assumes "x \<noteq> 0"
  shows "2 powr of_int \<lfloor>log 2 \<bar>x\<bar>\<rfloor> \<le> \<bar>x\<bar>" and "\<bar>x\<bar> < 2 powr (of_int \<lfloor>log 2 \<bar>x\<bar>\<rfloor> + 1)"
proof -
  have "0 < \<bar>x\<bar>" using assms by simp
  from floor_log_eq_powr_iff [OF this, of 2 "\<lfloor>log 2 \<bar>x\<bar>\<rfloor>"]
  show "2 powr of_int \<lfloor>log 2 \<bar>x\<bar>\<rfloor> \<le> \<bar>x\<bar>" and "\<bar>x\<bar> < 2 powr (of_int \<lfloor>log 2 \<bar>x\<bar>\<rfloor> + 1)"
    by simp_all
qed

lemma rnd_error:
  assumes "x \<noteq> 0"
  shows "\<bar>rnd p x - x\<bar> \<le> 2 powr (of_int \<lfloor>log 2 \<bar>x\<bar>\<rfloor> - of_nat p)"
proof -
  define u :: real where "u = 2 powr (of_int \<lfloor>log 2 \<bar>x\<bar>\<rfloor> - of_nat p + 1)"
  have u0: "0 < u" by (simp add: u_def)
  have "rnd p x = of_int (round_half_even (x / u)) * u"
    using assms unfolding rnd_def Let_def u_def by simp
  then have "rnd p x - x = (of_int (round_half_even (x / u)) - x / u) * u"
    using u0 by (simp add: algebra_simps)
  then have "\<bar>rnd p x - x\<bar> = \<bar>of_int (round_half_even (x / u)) - x / u\<bar> * u"
    using u0 by (simp add: abs_mult)
  also have "\<dots> \<le> 1 / 2 * u"
    using round_half_even_error [of "x / u"] u0 by (intro mult_right_mono) auto
  also have "\<dots> = 2 powr (of_int \<lfloor>log 2 \<bar>x\<bar>\<rfloor> - of_nat p)"
    by (simp add: u_def powr_add)
  finally show ?thesis .
qed

lemma rnd_relative_error: "\<bar>rnd p x - x\<bar> \<le> \<bar>x\<bar> / 2 ^ p"
proof (cases "x = 0")
  case True
  then show ?thesis by (simp add: rnd_def)
next
  case False
  have "\<bar>rnd p x - x\<bar> \<le> 2 powr (of_int \<lfloor>log 2 \<bar>x\<bar>\<rfloor> - of_nat p)"
    using False by (rule rnd_error)
  also have "\<dots> = 2 powr of_int \<lfloor>log 2 \<bar>x\<bar>\<rfloor> / 2 ^ p"
    by (simp add: powr_diff powr_realpow)
  also have "\<dots> \<le> \<bar>x\<bar> / 2 ^ p"
    using binade(1) [OF False] by (simp add: divide_right_mono)
  finally show ?thesis .
qed

lemma rnd_within:
  assumes "0 \<le> x" and "7 \<le> p"
  shows "99 / 100 * x \<le> rnd p x" and "rnd p x \<le> 101 / 100 * x"
proof -
  have "(2::real) ^ 7 \<le> 2 ^ p"
    using assms(2) by (intro power_increasing) auto
  then have "x / 2 ^ p \<le> x / 100"
    using assms(1) by (intro divide_left_mono) (auto intro: mult_pos_pos)
  moreover have "rnd p x - x \<le> x / 2 ^ p \<and> - (rnd p x - x) \<le> x / 2 ^ p"
    using rnd_relative_error [of p x] assms(1) by (simp only: abs_le_iff abs_of_nonneg)
  ultimately show "99 / 100 * x \<le> rnd p x" and "rnd p x \<le> 101 / 100 * x"
    by linarith+
qed

lemma to_float_within:
  assumes "0 \<le> x"
  shows "99 / 100 * x \<le> to_float x" and "to_float x \<le> 101 / 100 * x"
  using rnd_within [OF assms, of 24] by (simp_all add: to_float_def)

lemma to_double_within:
  assumes "0 \<le> x"
  shows "99 / 100 * x \<le> to_double x" and "to_double x \<le> 101 / 100 * x"
  using rnd_within [OF assms, of 53] by (simp_all add: to_double_def)

lemma rnd_nearest:
  assumes t: "0 < t" and rep: "rnd p t = t"
    and y1: "\<bar>y - t\<bar> < 2 powr (of_int \<lfloor>log 2 t\<rfloor> - of_nat p)"
    and y2: "2 powr of_int \<lfloor>log 2 t\<rfloor> \<le> y"
  shows "rnd p y = t"
proof -
  define E where "E = \<lfloor>log 2 t\<rfloor>"
  define u :: real where "u = 2 powr (of_int E - of_nat p + 1)"
  define k where "k = round_half_even (t / u)"
  have u0: "0 < u" by (simp add: u_def)
  have half: "2 powr (of_int E - of_nat p) = u / 2"
    by (simp add: u_def powr_add)
  have top: "2 powr (of_int E + 1) = 2 ^ p * u"
    by (simp add: u_def powr_add [symmetric] powr_realpow [symmetric])
  have bt: "2 powr of_int E \<le> t" "t < 2 powr (of_int E + 1)"
    using binade [of t] t by (simp_all add: E_def)
  have tk: "t = of_int k * u"
    using rep t unfolding rnd_def Let_def k_def u_def E_def by simp
  have "of_int k * u < 2 ^ p * u"
    using bt(2) unfolding top tk .
  then have "of_int k < (2::real) ^ p"
    using u0 by simp
  then have "k < 2 ^ p"
    by (metis of_int_less_iff of_int_numeral of_int_power)
  then have "of_int k \<le> (2::real) ^ p - 1"
    by (metis of_int_le_iff of_int_numeral of_int_power of_int_diff of_int_1 zless_imp_add1_zle
        add.commute le_diff_eq)
  then have "t \<le> (2 ^ p - 1) * u"
    unfolding tk using u0 by (intro mult_right_mono) auto
  moreover have "y < t + u / 2" "t - u / 2 < y"
    using y1 unfolding E_def [symmetric] half by (auto simp: abs_if split: if_splits)
  ultimately have yt: "y < 2 powr (of_int E + 1)"
    unfolding top using u0 by (simp add: algebra_simps)
  have y0: "0 < y"
    using y2 by (smt (verit) powr_gt_zero)
  have Ey: "\<lfloor>log 2 \<bar>y\<bar>\<rfloor> = E"
    using y0 y2 yt by (simp add: floor_log_eq_powr_iff E_def)
  have "y / u - of_int k = (y - t) / u"
    using u0 by (simp add: tk field_simps)
  then have "\<bar>y / u - of_int k\<bar> = \<bar>y - t\<bar> / u"
    using u0 by simp
  also have "\<dots> < 1 / 2"
    using y1 u0 unfolding E_def [symmetric] half by (simp add: field_simps)
  finally have "round_half_even (y / u) = k"
    by (rule round_half_even_near)
  then show ?thesis
    using y0 unfolding rnd_def Let_def Ey u_def [symmetric] tk by simp
qed

subsection \<open>The square root of a rounded square\<close>

text \<open>For a positive \<^verbatim>\<open>float\<close> \<open>t\<close> the computation \<^verbatim>\<open>(float) sqrt((double) (t * t))\<close> gives
  \<open>t\<close> back, although the square is rounded.\<close>

lemma sqrt_square_float:
  assumes t: "0 < t" and rep: "to_float t = t"
  shows "to_float (to_double (sqrt (to_float (t * t)))) = t"
proof (cases "to_float (t * t) = t * t")
  case True
  have "sqrt (t * t) = t" using t by simp
  moreover have "to_double t = t" using to_double_to_float [of t] rep by simp
  ultimately show ?thesis using True rep by simp
next
  case False
  define E where "E = \<lfloor>log 2 t\<rfloor>"
  define U :: real where "U = 2 powr of_int E"
  define k where "k = round_half_even (t / (U / 2 ^ 23))"
  define q where "q = to_float (t * t)"
  define s where "s = sqrt q"
  define y where "y = to_double s"
  have U0: "0 < U" by (simp add: U_def)
  have ulp: "2 powr (of_int E - of_nat 24 + 1) = U / 2 ^ 23"
    by (simp add: U_def powr_diff powr_add)
  have half: "2 powr (of_int E - of_nat 24) = U / 2 ^ 24"
    by (simp add: U_def powr_diff)
  have bt: "U \<le> t" "t < 2 * U"
    using binade [of t] t by (simp_all add: E_def U_def powr_add)
  have ulp': "2 powr (of_int \<lfloor>log 2 \<bar>t\<bar>\<rfloor> - of_nat 24 + 1) = U / 2 ^ 23"
    using t ulp by (simp add: E_def)
  have "rnd 24 t = of_int k * (U / 2 ^ 23)"
    using t unfolding rnd_def Let_def ulp' k_def by simp
  then have tk: "t = of_int k * (U / 2 ^ 23)"
    using rep by (simp add: to_float_def)
  have "t \<noteq> U"
  proof
    assume "t = U"
    then have "t * t = of_int 1 * 2 powr of_int (2 * E)"
      by (simp add: U_def powr_add [symmetric])
    with rnd_exact [of 1 24 "2 * E"] have "to_float (t * t) = t * t"
      by (simp add: to_float_def)
    with False show False by simp
  qed
  with bt(1) have "U < t" by simp
  then have "8388608 * (U / 8388608) < of_int k * (U / 8388608)"
    using tk by simp
  then have "8388608 < (of_int k :: real)"
    using U0 by (simp only: mult_less_cancel_right_pos divide_pos_pos zero_less_numeral)
  then have "8388608 < k" by simp
  then have "8388609 \<le> k" by simp
  then have "8388609 \<le> (of_int k :: real)" by simp
  then have "8388609 * (U / 8388608) \<le> of_int k * (U / 8388608)"
    using U0 by (intro mult_right_mono) simp_all
  then have lo: "U + U / 8388608 \<le> t"
    using tk by simp
  have "of_int k * (U / 8388608) < 16777216 * (U / 8388608)"
    using bt(2) tk by simp
  then have "(of_int k :: real) < 16777216"
    using U0 by (simp only: mult_less_cancel_right_pos divide_pos_pos zero_less_numeral)
  then have "k < 16777216" by simp
  then have "k \<le> 16777215" by simp
  then have "(of_int k :: real) \<le> 16777215" by simp
  then have "of_int k * (U / 8388608) \<le> 16777215 * (U / 8388608)"
    using U0 by (intro mult_right_mono) simp_all
  then have hi: "t \<le> 2 * U - U / 8388608"
    using tk by simp
  define T where "T = t * t"
  have T0: "0 < T" using t by (simp add: T_def)
  have "\<bar>q - T\<bar> \<le> T / 2 ^ 24"
    using rnd_relative_error [of 24 "t * t"] T0 by (simp add: q_def T_def to_float_def)
  then have "q - T \<le> T / 2 ^ 24 \<and> - (q - T) \<le> T / 2 ^ 24"
    by (simp only: abs_le_iff)
  then have qT: "q \<le> T + T / 16777216" "T - T / 16777216 \<le> q"
    by simp_all
  have q0: "0 \<le> q" using qT(2) T0 by linarith
  have c1: "(1 + 1 / 16777216 :: real) \<le> (1 + 1 / 33554432)\<^sup>2"
    by (simp add: power2_eq_square)
  have c2: "((1 - 1 / 33554432 - 1 / 1125899906842624)\<^sup>2 :: real) \<le> 1 - 1 / 16777216"
    by (simp add: power2_eq_square)
  have "q \<le> T * (1 + 1 / 16777216)"
    using qT(1) by (simp add: algebra_simps)
  also have "\<dots> \<le> T * (1 + 1 / 33554432)\<^sup>2"
    using T0 c1 by (intro mult_left_mono) simp_all
  also have "\<dots> = (t * (1 + 1 / 33554432))\<^sup>2"
    unfolding T_def power2_eq_square by (simp only: mult_ac)
  finally have "s \<le> t * (1 + 1 / 33554432)"
    unfolding s_def using t by (intro real_le_lsqrt) simp_all
  then have s_up: "s \<le> t + t / 33554432"
    by (simp add: algebra_simps)
  have "(t * (1 - 1 / 33554432 - 1 / 1125899906842624))\<^sup>2 =
        T * (1 - 1 / 33554432 - 1 / 1125899906842624)\<^sup>2"
    unfolding T_def power2_eq_square by (simp only: mult_ac)
  also have "\<dots> \<le> T * (1 - 1 / 16777216)"
    using T0 c2 by (intro mult_left_mono) simp_all
  also have "\<dots> \<le> q"
    using qT(2) by (simp add: algebra_simps)
  finally have "t * (1 - 1 / 33554432 - 1 / 1125899906842624) \<le> s"
    unfolding s_def by (rule real_le_rsqrt)
  then have s_lo: "t - t / 33554432 - t / 1125899906842624 \<le> s"
    by (simp add: algebra_simps)
  have s0: "0 \<le> s" by (simp add: s_def q0)
  have "\<bar>y - s\<bar> \<le> s / 2 ^ 53"
    using rnd_relative_error [of 53 s] s0 by (simp add: y_def to_double_def)
  then have "y - s \<le> s / 2 ^ 53 \<and> - (y - s) \<le> s / 2 ^ 53"
    by (simp only: abs_le_iff)
  then have ys: "y \<le> s + s / 9007199254740992" "s - s / 9007199254740992 \<le> y"
    by simp_all
  note hi' = hi and lo' = lo
  have n1: "y - t < U / 16777216"
    using ys(1) s_up hi' t U0 by linarith
  have n2: "t - y < U / 16777216"
    using ys(2) s_lo s_up hi' t U0 by linarith
  from n1 n2 have "y - t < U / 16777216 \<and> - (y - t) < U / 16777216"
    by simp
  then have "\<bar>y - t\<bar> < U / 16777216"
    by (simp only: abs_less_iff)
  then have near: "\<bar>y - t\<bar> < U / 2 ^ 24"
    by simp
  have "U \<le> y"
    using n2 lo' U0 by linarith
  then have c2: "2 powr of_int \<lfloor>log 2 t\<rfloor> \<le> y"
    unfolding U_def E_def .
  have c1: "\<bar>y - t\<bar> < 2 powr (of_int \<lfloor>log 2 t\<rfloor> - of_nat 24)"
    using near unfolding half [symmetric] E_def .
  have "rnd 24 t = t"
    using rep unfolding to_float_def .
  with t have "rnd 24 y = t"
    using c1 c2 by (rule rnd_nearest)
  then show ?thesis
    by (simp add: y_def s_def q_def to_float_def)
qed

subsection \<open>The standard deviation of two values\<close>

lemma std_dev_pair:
  "std_dev [a, b] =
     (let sum = to_double (to_double (0 + a) + b);
          mean = to_float (to_double (sum / 2));
          da = to_float (a - mean);
          s1 = to_float (0 + to_float (da * da));
          db = to_float (b - mean);
          s2 = to_float (s1 + to_float (db * db));
          variance = to_float (s2 / 2)
      in to_float (to_double (sqrt variance)))"
  by (simp add: std_dev_def Let_def)

lemma std_dev_two_ints:
  fixes x y :: int
  assumes xy: "x \<noteq> y" and x: "\<bar>x\<bar> \<le> 8388608" and y: "\<bar>y\<bar> \<le> 8388608"
  shows "std_dev [of_int x, of_int y] = of_int \<bar>x - y\<bar> / 2"
proof -
  define D where "D = x - y"
  define t :: real where "t = of_int \<bar>D\<bar> / 2"
  define q where "q = to_float (t * t)"
  have D: "\<bar>D\<bar> \<le> 16777216" "\<bar>- D\<bar> \<le> 16777216" "\<bar>\<bar>D\<bar>\<bar> \<le> 16777216" and D0: "D \<noteq> 0"
    and S: "\<bar>x + y\<bar> < 16777216" and X: "\<bar>x\<bar> < 16777216"
    using x y xy by (auto simp: D_def)
  have t0: "0 < t" using D0 by (simp add: t_def)
  have tt: "to_float t = t" unfolding t_def using D(3) by (rule to_float_half)
  have s0: "to_double (0 + of_int x) = of_int x"
    using to_double_of_int [OF X] by simp
  have s: "to_double (of_int x + of_int y) = of_int (x + y)"
    using to_double_of_int [OF S] by simp
  have m1: "to_double (of_int (x + y) / 2) = of_int (x + y) / 2"
    using to_double_exact [OF S, of 1] by simp
  have m2: "to_float (of_int (x + y) / 2) = of_int (x + y) / 2"
    using to_float_exact [OF S, of 1] by simp
  have dx: "to_float (of_int x - of_int (x + y) / 2) = of_int D / 2"
    using to_float_half [OF D(1)] by (simp add: D_def field_simps)
  have dy: "to_float (of_int y - of_int (x + y) / 2) = of_int (- D) / 2"
    using to_float_half [OF D(2)] by (simp add: D_def field_simps)
  have sqx: "to_float (of_int D / 2 * (of_int D / 2)) = q"
    unfolding q_def t_def by (rule arg_cong [of _ _ to_float]) (simp add: abs_if)
  have sqy: "to_float (of_int (- D) / 2 * (of_int (- D) / 2)) = q"
    unfolding q_def t_def by (rule arg_cong [of _ _ to_float]) (simp add: abs_if)
  have s1: "to_float (0 + q) = q"
    by (simp add: q_def to_float_idem)
  have s2: "to_float (q + q) = 2 * q"
    using rnd_twice [of 24 q] by (simp add: to_float_def [symmetric] q_def to_float_idem)
  have v: "to_float (2 * q / 2) = q"
    by (simp add: q_def to_float_idem)
  have r: "to_float (to_double (sqrt q)) = t"
    unfolding q_def using t0 tt by (rule sqrt_square_float)
  show ?thesis
    unfolding std_dev_pair Let_def s0 s m1 m2 dx dy sqx sqy s1 s2 v r
    by (simp add: t_def D_def)
qed

lemma std_dev_equal:
  fixes x :: int
  assumes "\<bar>x\<bar> < 16777216"
  shows "std_dev [of_int x, of_int x] = 0"
proof -
  have "\<bar>2 * x\<bar> < 2 ^ 53" using assms by simp
  from rnd_of_int [OF this] rnd_div_pow2 [OF this, of 1]
  have s: "to_double (of_int x + of_int x) = 2 * of_int x"
    and m: "to_double (2 * of_int x / 2) = of_int x"
    by (simp_all add: to_double_def)
  have s0: "to_double (0 + of_int x) = of_int x"
    using to_double_of_int [OF assms] by simp
  have z: "to_float 0 = 0" "to_double 0 = 0"
    by (simp_all add: to_float_def to_double_def rnd_0)
  show ?thesis
    unfolding std_dev_pair Let_def s0 s m to_float_of_int [OF assms]
    by (simp add: z)
qed

lemma std_dev_same:
  assumes "to_double a = a" and "to_double (a + a) = a + a" and "to_float a = a"
  shows "std_dev [a, a] = 0"
proof -
  have z: "to_float 0 = 0" "to_double 0 = 0"
    by (simp_all add: to_float_def to_double_def rnd_0)
  have h: "(a + a) / 2 = a" by simp
  show ?thesis
    unfolding std_dev_pair Let_def add_0 assms h
    by (simp add: z)
qed

lemma std_dev_8388608_8388609:
  "68 / 100 \<le> std_dev [8388608, 8388609]" "std_dev [8388608, 8388609] \<le> 73 / 100"
proof -
  have s: "to_double (0 + 8388608) = 8388608" "to_double (8388608 + 8388609) = 16777217"
    "to_double (16777217 / 2) = 16777217 / 2"
    using rnd_of_int [of 8388608 53] rnd_of_int [of 16777217 53] rnd_div_pow2 [of 16777217 53 1]
    by (simp_all add: to_double_def)
  have f: "to_float 0 = 0" "to_float 1 = 1" "to_float (1 / 2) = 1 / 2"
    using to_float_of_int [of 1] to_float_exact [of 1 1] by (simp_all add: to_float_def rnd_0)
  have sd: "std_dev [8388608, 8388609] = to_float (to_double (sqrt (1 / 2)))"
    unfolding std_dev_pair Let_def s to_float_tie by (simp add: f)
  have r: "7 / 10 \<le> sqrt (1 / 2)" "sqrt (1 / 2) \<le> 71 / 100"
    by (rule real_le_rsqrt, simp add: power2_eq_square)
      (rule real_le_lsqrt, simp_all add: power2_eq_square)
  have d: "99 / 100 * sqrt (1 / 2) \<le> to_double (sqrt (1 / 2))"
    "to_double (sqrt (1 / 2)) \<le> 101 / 100 * sqrt (1 / 2)"
    by (rule to_double_within, simp)+
  then have d0: "0 \<le> to_double (sqrt (1 / 2))" using r by linarith
  from to_float_within [OF d0] d r
  show "68 / 100 \<le> std_dev [8388608, 8388609]" "std_dev [8388608, 8388609] \<le> 73 / 100"
    unfolding sd by linarith+
qed

subsection \<open>One dimension\<close>

lemma n_e_d_step_differ:
  fixes x y :: int
  assumes xy: "x \<noteq> y" and x: "\<bar>x\<bar> \<le> 8388608" and y: "\<bar>y\<bar> \<le> 8388608"
    and k: "k < 16777215"
  shows "n_e_d_step (Fin (2 * real k)) x y = Fin (2 * real (Suc k))"
proof -
  define D where "D = \<bar>x - y\<bar>"
  have D: "0 < D" "D \<le> 16777216" and X: "\<bar>x\<bar> < 16777216" and Y: "\<bar>y\<bar> < 16777216"
    using x y xy by (auto simp: D_def)
  have "D * D \<le> 16777216 * 16777216"
    using D by (intro mult_mono) auto
  then have DD: "\<bar>D * D\<bar> < 2 ^ 53" and D53: "\<bar>D\<bar> < 2 ^ 53"
    using D by (simp_all add: abs_mult)
  have sd: "std_dev [of_int x, of_int y] = of_int D / 2"
    unfolding D_def using xy x y by (rule std_dev_two_ints)
  have p1: "pow2 (to_double (of_int D)) = of_int (D * D)"
    using rnd_of_int [OF D53] rnd_of_int [OF DD] by (simp add: pow2_def to_double_def)
  have p2: "pow2 (of_int D / 2) = of_int (D * D) / 4"
    using rnd_div_pow2 [OF DD, of 2] by (simp add: pow2_def to_double_def)
  have q: "ddiv (of_int (D * D)) (of_int (D * D) / 4) = Fin 4"
    using D(1) to_double_of_int [of 4] by (simp add: ddiv_def)
  have r: "dsqrt (Fin 4) = Fin 2"
    using to_double_of_int [of 2] by simp
  have "\<bar>int (Suc k)\<bar> < 2 ^ 24" "\<bar>int (Suc k)\<bar> < 2 ^ 53" using k by simp_all
  from rnd_mult_pow2 [OF this(1), of 1] rnd_mult_pow2 [OF this(2), of 1]
  have e: "to_double (2 * real k + 2) = 2 * real (Suc k)"
    "to_float (2 * real (Suc k)) = 2 * real (Suc k)"
    by (simp_all add: to_float_def to_double_def algebra_simps)
  show ?thesis
    by (simp only: n_e_d_step_def Let_def to_float_of_int [OF X] to_float_of_int [OF Y] sd
        D_def [symmetric] p1 p2 q r add_assign.simps e)
qed

lemma add_assign_NaN: "add_assign d NaN = NaN"
  by (cases d) simp_all

lemma n_e_d_step_equal:
  fixes x :: int
  assumes "\<bar>x\<bar> < 16777216"
  shows "n_e_d_step d x x = NaN"
proof -
  have z: "to_double 0 = 0"
    by (simp add: to_double_def rnd_0)
  show ?thesis
    unfolding n_e_d_step_def Let_def to_float_of_int [OF assms] std_dev_equal [OF assms]
    by (simp add: pow2_def z ddiv_def add_assign_NaN)
qed

lemma n_e_d_step_NaN: "n_e_d_step NaN x y = NaN"
  by (simp add: n_e_d_step_def Let_def)

lemma n_e_d_loop_NaN: "n_e_d_loop a b NaN = NaN"
  by (induction a b "NaN" rule: n_e_d_loop.induct) (simp_all add: n_e_d_step_NaN)

subsection \<open>The whole loop\<close>

lemma n_e_d_loop_differ:
  assumes "list_all2 (\<lambda>x y. x \<noteq> y \<and> \<bar>x\<bar> \<le> 8388608 \<and> \<bar>y\<bar> \<le> 8388608) a b"
    and "k + length a < 16777216"
  shows "n_e_d_loop a b (Fin (2 * real k)) = Fin (2 * real (k + length a))"
  using assms
proof (induction a b arbitrary: k rule: list_all2_induct)
  case Nil
  then show ?case by simp
next
  case (Cons x xs y ys)
  from Cons.prems have k: "k < 16777215" and k': "Suc k + length xs < 16777216"
    by simp_all
  from Cons.hyps(1) k have "n_e_d_step (Fin (2 * real k)) x y = Fin (2 * real (Suc k))"
    by (intro n_e_d_step_differ) auto
  with Cons.IH [OF k'] show ?case by simp
qed

lemma n_e_d_differ:
  assumes "list_all2 (\<lambda>x y. x \<noteq> y \<and> \<bar>x\<bar> \<le> 8388608 \<and> \<bar>y\<bar> \<le> 8388608) a b"
    and "length a < 16777216"
  shows "n_e_d a b = Fin (2 * real (length a))"
  using n_e_d_loop_differ [OF assms(1), of 0] assms(2) by (simp add: n_e_d_def)

lemma n_e_d_self:
  assumes "\<bar>x\<bar> < 16777216"
  shows "n_e_d (x # xs) (x # xs) = NaN"
  by (simp add: n_e_d_def n_e_d_step_equal [OF assms] n_e_d_loop_NaN)

lemma n_e_d_boundary:
  "\<exists>v. n_e_d [8388608] [8388609] = Fin v \<and> 1 < v \<and> v < 2"
proof -
  define sd where "sd = std_dev [8388608, 8388609]"
  define den where "den = pow2 sd"
  define w where "w = to_double (1 / den)"
  define z where "z = to_double (sqrt w)"
  have sd: "68 / 100 \<le> sd" "sd \<le> 73 / 100"
    unfolding sd_def by (rule std_dev_8388608_8388609)+
  then have sd0: "0 \<le> sd" by linarith
  have "(68 / 100) * (68 / 100) \<le> sd * sd"
    using sd(1) sd(1) sd0 by (rule mult_mono) simp
  moreover have "sd * sd \<le> (73 / 100) * (73 / 100)"
    using sd(2) sd(2) _ sd0 by (rule mult_mono) simp
  ultimately have ss: "46 / 100 \<le> sd * sd" "sd * sd \<le> 54 / 100" by simp_all
  then have "0 \<le> sd * sd" by linarith
  from to_double_within [OF this] ss
  have den: "45 / 100 \<le> den" "den \<le> 55 / 100"
    unfolding den_def pow2_def by linarith+
  then have den0: "0 < den" by linarith
  have "1 / den \<le> 1 / (45 / 100)"
    using den(1) by (intro frac_le) simp_all
  moreover have "1 / (55 / 100) \<le> 1 / den"
    using den(2) den0 by (intro frac_le) simp_all
  ultimately have i: "18 / 10 \<le> 1 / den" "1 / den \<le> 23 / 10" by simp_all
  then have "0 \<le> 1 / den" by linarith
  from to_double_within [OF this] i
  have w: "17 / 10 \<le> w" "w \<le> 24 / 10"
    unfolding w_def by linarith+
  have w2: "(13 / 10)\<^sup>2 \<le> w" "w \<le> (16 / 10)\<^sup>2"
    using w by (simp_all add: power2_eq_square)
  have r: "13 / 10 \<le> sqrt w" "sqrt w \<le> 16 / 10"
    using w2(1) apply (rule real_le_rsqrt)
    using w2(2) apply (intro real_le_lsqrt) apply simp_all
    done
  then have "0 \<le> sqrt w" by linarith
  from to_double_within [OF this] r
  have z: "12 / 10 \<le> z" "z \<le> 17 / 10"
    unfolding z_def by linarith+
  then have "0 \<le> z" by linarith
  from to_double_within [OF this] z
  have z': "11 / 10 \<le> to_double z" "to_double z \<le> 18 / 10"
    by linarith+
  then have "0 \<le> to_double z" by linarith
  from to_float_within [OF this] z'
  have v: "1 < to_float (to_double z)" "to_float (to_double z) < 2"
    by linarith+
  have a: "to_float 8388608 = 8388608" "to_float 8388609 = 8388609" "to_double 1 = 1"
    using to_float_of_int [of 8388608] to_float_of_int [of 8388609] to_double_of_int [of 1]
    by simp_all
  have "n_e_d [8388608] [8388609] = Fin (to_float (to_double z))"
    using den0 w
    by (simp add: n_e_d_def n_e_d_step_def a sd_def [symmetric] pow2_def [of 1]
        den_def [symmetric] ddiv_def w_def [symmetric] z_def [symmetric])
  with v show ?thesis by blast
qed

subsection \<open>Symmetry\<close>

lemma std_dev_commute:
  "std_dev [to_float a, to_float b] = std_dev [to_float b, to_float a]"
  by (simp add: std_dev_pair Let_def to_float_idem to_double_to_float add.commute)

lemma n_e_d_step_commute: "n_e_d_step d x y = n_e_d_step d y x"
  by (simp add: n_e_d_step_def Let_def std_dev_commute [of "of_int x"] abs_minus_commute)

lemma n_e_d_loop_commute: "n_e_d_loop a b d = n_e_d_loop b a d"
proof (induction a arbitrary: b d)
  case Nil
  show ?case by (cases b) simp_all
next
  case (Cons x xs)
  show ?case
  proof (cases b)
    case Nil
    then show ?thesis by simp
  next
    case (Cons y ys)
    have "n_e_d_loop xs ys (n_e_d_step d x y) = n_e_d_loop ys xs (n_e_d_step d y x)"
      unfolding n_e_d_step_commute [of d x y] by (rule Cons.IH)
    with Cons show ?thesis by simp
  qed
qed

lemma n_e_d_commute: "n_e_d a b = n_e_d b a"
  by (simp add: n_e_d_def n_e_d_loop_commute)

subsection \<open>The specified distance\<close>

text \<open>Where all dimensions differ the specified distance is \<open>2 * sqrt L\<close>, the value
  computed by the code is \<open>2 * L\<close> (lemma \<open>n_e_d_differ\<close>).\<close>

lemma pop_std_dev_eq: "pop_std_dev x y = \<bar>x - y\<bar> / 2"
proof -
  have "((x - (x + y) / 2)\<^sup>2 + (y - (x + y) / 2)\<^sup>2) / 2 = (\<bar>x - y\<bar> / 2)\<^sup>2"
    by (simp add: power2_eq_square field_simps)
  then show ?thesis
    unfolding pop_std_dev_def by (simp only: real_sqrt_abs) simp
qed

lemma spec_term:
  assumes "x \<noteq> y"
  shows "(x - y)\<^sup>2 / (pop_std_dev x y)\<^sup>2 = 4"
  using assms by (simp add: pop_std_dev_eq power2_eq_square)

lemma spec_sum_differ:
  assumes "list_all2 (\<lambda>x y. x \<noteq> y) a b"
  shows "sum_list (map (\<lambda>(x, y). (of_int x - of_int y)\<^sup>2 / (pop_std_dev (of_int x) (of_int y))\<^sup>2)
           (zip a b)) = 4 * real (length a)"
  using assms
proof (induction a b rule: list_all2_induct)
  case Nil
  then show ?case by simp
next
  case (Cons x xs y ys)
  then have "(of_int x :: real) \<noteq> of_int y" by simp
  from spec_term [OF this] Cons.IH show ?case by simp
qed

lemma spec_distance_differ:
  assumes "list_all2 (\<lambda>x y. x \<noteq> y) a b"
  shows "spec_distance a b = 2 * sqrt (real (length a))"
  unfolding spec_distance_def spec_sum_differ [OF assms]
  by (simp add: real_sqrt_mult)

subsection \<open>The claims about the distance\<close>

text \<open>
  Claim C1 (the distance is one square root over the sum of the per-dimension terms
  \<open>(a[i]-b[i])^2 / stddev^2\<close>).  The code takes the square root inside the loop and adds
  the roots (\<^verbatim>\<open>d += sqrt(...)\<close>), although its comment calls the function the normalized
  euclidean distance.  For \<open>a = [0, 0]\<close> and \<open>b = [1, 1]\<close> each term is 4: the code returns
  \<open>2 + 2 = 4\<close>, the specified distance is \<open>sqrt 8\<close>.  In general, on vectors that
  differ in all \<open>L\<close> dimensions the code returns \<open>2 * L\<close> (lemma \<open>n_e_d_differ\<close>, for
  entries up to \<open>2^23\<close>) and the specified distance is \<open>2 * sqrt L\<close> (lemma
  \<open>spec_distance_differ\<close>).
\<close>

theorem n_e_d_adds_square_roots:
  "n_e_d [0, 0] [1, 1] = Fin 4 \<and> spec_distance [0, 0] [1, 1] = sqrt 8"
proof
  show "n_e_d [0, 0] [1, 1] = Fin 4"
    using n_e_d_differ [of "[0, 0]" "[1, 1]"] by simp
  show "spec_distance [0, 0] [1, 1] = sqrt 8"
    by (simp add: spec_distance_def pop_std_dev_def power2_eq_square real_sqrt_divide)
qed

text \<open>
  Claim C9 (\<open>distance(v, v) = 0\<close>, and the distance is symmetric).  The first half fails
  on the code for every non-empty vector: in the first dimension the two values are
  equal, their standard deviation is 0, the term is \<open>0 / 0\<close>, and the accumulator is not
  a number from then on.  The second half holds (lemma \<open>n_e_d_commute\<close>).
\<close>

theorem distance_to_itself_is_NaN:
  "\<bar>x\<bar> < 16777216 \<Longrightarrow> n_e_d (x # xs) (x # xs) = NaN"
  by (rule n_e_d_self)

theorem distance_to_itself_is_NaN_witness:
  "\<bar>1 :: int\<bar> < 16777216 \<and> n_e_d [1] [1] = NaN \<and> n_e_d [7, 3] [7, 3] = NaN"
  using distance_to_itself_is_NaN [of 1 "[]"] distance_to_itself_is_NaN [of 7 "[3]"]
  by simp

text \<open>
  Claim C10, as stated (a dimension in which the two values differ contributes exactly 2
  whatever the magnitudes, so vectors that differ in all \<open>L\<close> dimensions are at
  distance exactly \<open>2 * L\<close>), fails in floating point.  16777217 is not a \<^verbatim>\<open>float\<close>: it is
  stored in \<^verbatim>\<open>vals\<close> as 16777216, so for \<open>a = [16777216]\<close> and \<open>b = [16777217]\<close> the
  standard deviation is 0 while the difference is 1, and the function returns
  \<open>+infinity\<close>.  For \<open>a = [8388608]\<close> and \<open>b = [8388609]\<close> the mean 8388608.5 is rounded
  to 8388608, the deviations are 0 and 1 instead of one half each, and the function
  returns a value between 1 and 2 (the \<^verbatim>\<open>float\<close> nearest to the square root of 2).
\<close>

theorem n_e_d_large_entries:
  "n_e_d [16777216] [16777217] = PInf \<and> n_e_d [8388608] [8388609] \<noteq> Fin 2"
proof
  have a: "to_float 16777216 = 16777216"
    using rnd_mult_pow2 [of 1 24 24] by (simp add: to_float_def)
  have b: "to_double 16777216 = 16777216"
    "to_double (16777216 + 16777216) = 16777216 + 16777216"
    using rnd_of_int [of 16777216 53] rnd_of_int [of 33554432 53]
    by (simp_all add: to_double_def)
  have sd: "std_dev [16777216, 16777216] = 0"
    using b a by (rule std_dev_same)
  have c: "to_double 1 = 1" "to_double 0 = 0"
    using rnd_of_int [of 1 53] by (simp_all add: to_double_def rnd_0)
  show "n_e_d [16777216] [16777217] = PInf"
    by (simp add: n_e_d_def n_e_d_step_def a to_float_16777217 sd pow2_def c ddiv_def)
  show "n_e_d [8388608] [8388609] \<noteq> Fin 2"
    using n_e_d_boundary by auto
qed

text \<open>
  Claim C10, amended: for vectors of fewer than \<open>2^24\<close> dimensions whose entries are at
  most \<open>2^23 = 8388608\<close> in magnitude and differ in every dimension, every dimension
  contributes exactly 2 (lemma \<open>n_e_d_step_differ\<close>) and the function returns exactly
  \<open>2 * L\<close>.  The bound on the entries is the largest possible, by the second example
  above.
\<close>

theorem n_e_d_all_dimensions_differ:
  assumes "list_all2 (\<lambda>x y. x \<noteq> y \<and> \<bar>x\<bar> \<le> 8388608 \<and> \<bar>y\<bar> \<le> 8388608) a b"
    and "length a < 16777216"
  shows "n_e_d a b = Fin (2 * real (length a))"
  using assms by (rule n_e_d_differ)

theorem n_e_d_all_dimensions_differ_witness:
  "list_all2 (\<lambda>x y. x \<noteq> y \<and> \<bar>x\<bar> \<le> 8388608 \<and> \<bar>y\<bar> \<le> 8388608)
     [3, - 5, 8388608] [4, 700000, - 8388608 :: int] \<and>
   length [3, - 5, 8388608 :: int] < 16777216 \<and>
   n_e_d [3, - 5, 8388608] [4, 700000, - 8388608] = Fin 6"
  using n_e_d_all_dimensions_differ [of "[3, - 5, 8388608]" "[4, 700000, - 8388608]"]
  by simp

section \<open>Properties of kmeans\<close>

lemma float_to_int_2: "float_to_int (Fin 2) = Some 2"
  by (simp add: float_to_int_def INT_MAX_def)

lemma assign_vec_last:
  assumes "list_all (\<lambda>c. case float_to_int (n_e_d v c) of None \<Rightarrow> False | Some d \<Rightarrow> d < min_dist) cs"
    and "cs \<noteq> []"
  shows "assign_vec v cs j min_dist mc = Inr (Some (int (j + length cs) - 1))"
  using assms
proof (induction cs arbitrary: j mc)
  case Nil
  then show ?case by simp
next
  case (Cons c cs)
  from Cons.prems(1) obtain d where d: "float_to_int (n_e_d v c) = Some d" "d < min_dist"
    and rest: "list_all (\<lambda>c. case float_to_int (n_e_d v c) of None \<Rightarrow> False | Some d \<Rightarrow> d < min_dist) cs"
    by (auto split: option.splits)
  show ?case
  proof (cases "cs = []")
    case True
    with d show ?thesis by simp
  next
    case False
    from Cons.IH [OF rest False, of "Suc j"] d show ?thesis by simp
  qed
qed

text \<open>
  Claim C2 (each vector is assigned to the centroid at minimum distance, the lowest index
  winning ties).  The code never updates \<^verbatim>\<open>min_dist\<close> (it assigns \<^verbatim>\<open>dist = min_dist\<close>
  instead), so every centroid whose distance is below \<^verbatim>\<open>INT_MAX\<close> replaces the choice and
  the last one is recorded (lemma \<open>assign_vec_last\<close>).  For the vector \<open>[1]\<close> and the
  centroids \<open>[0]\<close> and \<open>[10]\<close> both distances are 2: the lowest index at minimum distance
  is 0, the code records 1.
\<close>

theorem assign_vec_records_last_centroid:
  "n_e_d [1] [0] = Fin 2 \<and> n_e_d [1] [10] = Fin 2 \<and>
   assign_vec [1] [[0], [10]] 0 INT_MAX None = Inr (Some 1)"
proof -
  have a: "n_e_d [1] [0] = Fin 2"
    using n_e_d_differ [of "[1]" "[0]"] by simp
  have b: "n_e_d [1] [10] = Fin 2"
    using n_e_d_differ [of "[1]" "[10]"] by simp
  have "assign_vec [1] [[0], [10]] 0 INT_MAX None = Inr (Some 1)"
    by (simp add: a b float_to_int_2) (simp add: INT_MAX_def)
  with a b show ?thesis by simp
qed

text \<open>
  Claim C3 (for at least \<open>k\<close> vectors the clustering returns an assignment, not a null
  result).  The comment above \<^verbatim>\<open>kmeans\<close> says it returns the mapping, but both
  \<^verbatim>\<open>return\<close> statements return \<^verbatim>\<open>NULL\<close>: no input makes the function return a mapping.
\<close>

theorem kmeans_returns_no_mapping:
  "kmeans vecs vec_len num_clusters \<noteq> Inr (Some m)"
  by (auto simp: kmeans_def and_then_Inr Let_def)

text \<open>On the four vectors of the specification's clustering scenario the first distance
  computed is that of a vector to itself, and its conversion to \<^verbatim>\<open>int\<close> is undefined.\<close>

lemma kmeans_scenario:
  "kmeans [[0, 0], [0, 1], [10, 10], [10, 11]] 2 2 = Inl Float_to_int_undefined"
  using n_e_d_self [of 0 "[0]"]
  by (simp add: kmeans_def and_then_def float_to_int_def)

lemma kmeans_empty_vectors: "kmeans [[], []] 0 1 = Inr None"
  by (simp add: kmeans_def and_then_def float_to_int_def n_e_d_def INT_MAX_def mean_vec_def)

end
